theory Spec2Isabelle
  imports Complex_Main "HOL-Library.AList" "HOL-Library.Word"
begin

section \<open>Data model\<close>

text \<open>
  Raw file content is a Go byte slice.
\<close>

type_synonym bytes = "8 word list"

text \<open>
  The decoder yields an \<open>interface{}\<close> holding a map with string keys, a slice, or one of the
  scalar Go types the property-list format knows. A nil interface (what \<open>diffPlists\<close> puts in
  place of a value that did not decode) is \<open>None\<close> of \<open>val option\<close>. A map is kept as an
  association list.
\<close>

text \<open>
  A \<open>float64\<close> as far as comparing goes: a finite value, one of the two infinities, or NaN.
  \<open>floatEq\<close> is Go's \<open>==\<close> on two of them, under which NaN is not equal to itself.
\<close>

datatype float64 = Finite real | PosInf | NegInf | NaN

definition floatEq :: "float64 \<Rightarrow> float64 \<Rightarrow> bool" where
  "floatEq a b = (a \<noteq> NaN \<and> b \<noteq> NaN \<and> a = b)"

datatype scalar =
    SInt int
  | SUInt nat
  | SReal float64
  | SBool bool
  | SString string
  | STime int
  | SData bytes

datatype val =
    VMap "(string \<times> val) list"
  | VSeq "val list"
  | VScalar scalar

datatype kind = KInt | KUInt | KReal | KBool | KString | KTime | KData | KMap | KSeq

fun scalarKind :: "scalar \<Rightarrow> kind" where
  "scalarKind (SInt _) = KInt"
| "scalarKind (SUInt _) = KUInt"
| "scalarKind (SReal _) = KReal"
| "scalarKind (SBool _) = KBool"
| "scalarKind (SString _) = KString"
| "scalarKind (STime _) = KTime"
| "scalarKind (SData _) = KData"

fun kindOf :: "val \<Rightarrow> kind" where
  "kindOf (VMap _) = KMap"
| "kindOf (VSeq _) = KSeq"
| "kindOf (VScalar s) = scalarKind s"

text \<open>
  Two scalars of one kind compared by value: reals by \<open>floatEq\<close>, every other kind by
  equality.
\<close>

fun scalarEq :: "scalar \<Rightarrow> scalar \<Rightarrow> bool" where
  "scalarEq (SReal a) (SReal b) = floatEq a b"
| "scalarEq s t = (s = t)"


text \<open>
  The errors a read can end in: \<open>errors.Is(err, os.ErrNotExist)\<close>,
  \<open>errors.Is(err, os.ErrPermission)\<close>, and every other error.
\<close>

datatype error = ErrNotExist | ErrPermission | ErrOther string

text \<open>
  An \<open>fs.FS\<close> as the program uses it: what \<open>fs.WalkDir\<close> hands to its callback, entry by
  entry (an error, or a path with the flag \<open>d.Type().IsRegular()\<close>), and what
  \<open>fs.ReadFile\<close> returns for a name. The order of \<open>walk\<close> also stands for the order in which
  Go ranges over the set of names built from it, which the language leaves open.
\<close>

record FS =
  walk :: "(error + string \<times> bool) list"
  readFileFS :: "string \<Rightarrow> error + bytes"

record differ =
  IgnorePermissionError :: bool
  IgnoreTimestamps :: bool

text \<open>
  A step of a \<open>cmp.Path\<close>. The renderer tells apart \<open>cmp.Indirect\<close>, \<open>cmp.StructField\<close>,
  \<open>cmp.Transform\<close> (with its \<open>Name()\<close>) and \<open>cmp.TypeAssertion\<close>; every other step (the root
  step, a map index, a slice index) is only asked for its \<open>String()\<close>. \<open>Values()\<close> gives the
  two values of the step, \<open>None\<close> for an invalid \<open>reflect.Value\<close>.
\<close>

datatype stepKind =
    Root
  | MapIndex string
  | SliceIndex nat
  | StructField string
  | Indirect
  | Transform string
  | TypeAssertion

record PathStep =
  kind :: stepKind
  vx :: "val option"
  vy :: "val option"

text \<open>
  \<open>cmp.Result\<close>: \<open>rs.Equal()\<close> holds for a node found equal and for a node that an option
  ignored.
\<close>

datatype Result = ResEqual | ResUnequal | ResIgnored

fun resultEqual :: "Result \<Rightarrow> bool" where
  "resultEqual ResEqual = True"
| "resultEqual ResUnequal = False"
| "resultEqual ResIgnored = True"

text \<open>
  \<open>FileDiff\<close> and \<open>diffReporter\<close>. The reporter's field \<open>path\<close> is called \<open>steps\<close> here,
  since \<open>FileDiff\<close> has a field \<open>path\<close> as well.
\<close>

record FileDiff =
  path :: string
  old :: "val option"
  new :: "val option"

record diffReporter =
  steps :: "PathStep list"
  diffs :: "FileDiff list"

text \<open>
  The options \<open>diffFSFilename\<close> builds: \<open>cmpopts.IgnoreTypes(time.Time{})\<close> is
  \<open>IgnoreTypes [KTime]\<close>.
\<close>

datatype cmpOption = IgnoreTypes "kind list"

text \<open>
  What the program takes from its libraries: the property-list decoder, \<open>cmp.Equal\<close> run with
  a reporter (it returns its verdict and leaves the reporter filled), the \<open>String()\<close> of a path
  step, and the two \<open>fmt\<close> verbs \<open>%+v\<close> and \<open>%T\<close> on a decoded value.
\<close>

record lib =
  plistDecode :: "bytes \<Rightarrow> error + val"
  cmpEqual :: "cmpOption list \<Rightarrow> val option \<Rightarrow> val option \<Rightarrow> diffReporter \<Rightarrow> bool \<times> diffReporter"
  stepString :: "PathStep \<Rightarrow> string"
  fmtValue :: "val \<Rightarrow> string"
  fmtType :: "val \<Rightarrow> string"

type_synonym fsDiff = "(string \<times> string) list"

section \<open>Command line (main.go)\<close>

record cliRoot =
  A :: string
  B :: string
  Timestamps :: bool
  PermissionsErrors :: bool

text \<open>
  \<open>var cli cliRoot\<close>: the zero value, which the flag parser leaves alone where no flag is
  given; a boolean flag that is given sets its field.
\<close>

definition cliZero :: cliRoot where
  "cliZero = \<lparr>A = [], B = [], Timestamps = False, PermissionsErrors = False\<rparr>"

datatype flag = FlagTimestamps | FlagPermissionsErrors

fun setFlag :: "flag \<Rightarrow> cliRoot \<Rightarrow> cliRoot" where
  "setFlag FlagTimestamps cli = cli\<lparr>Timestamps := True\<rparr>"
| "setFlag FlagPermissionsErrors cli = cli\<lparr>PermissionsErrors := True\<rparr>"

definition parseFlags :: "flag list \<Rightarrow> cliRoot" where
  "parseFlags fs = fold setFlag fs cliZero"

text \<open>The differ that \<open>run\<close> builds from the parsed command line.\<close>

definition runDiffer :: "cliRoot \<Rightarrow> differ" where
  "runDiffer cli =
     \<lparr>IgnorePermissionError = \<not> PermissionsErrors cli, IgnoreTimestamps = \<not> Timestamps cli\<rparr>"

section \<open>Reading files\<close>

text \<open>\<open>differ.readFile\<close>\<close>

definition readFile :: "differ \<Rightarrow> FS \<Rightarrow> string \<Rightarrow> error + bytes" where
  "readFile d fsys filename =
     (case readFileFS fsys filename of
        Inr data \<Rightarrow> Inr data
      | Inl err \<Rightarrow>
          if err = ErrNotExist then Inr []
          else if err = ErrPermission \<and> IgnorePermissionError d then Inr []
          else Inl err)"

text \<open>\<open>strings.HasSuffix\<close>\<close>

definition hasSuffix :: "string \<Rightarrow> string \<Rightarrow> bool" where
  "hasSuffix s suf = (length suf \<le> length s \<and> drop (length s - length suf) s = suf)"

text \<open>
  \<open>getPlistFiles\<close>: the callback of \<open>fs.WalkDir\<close>, entry by entry. An error ends the walk
  and is returned; the set of names is a list without duplicates.
\<close>

fun walkPlistFiles :: "(error + string \<times> bool) list \<Rightarrow> string list \<Rightarrow> error + string list" where
  "walkPlistFiles [] files = Inr files"
| "walkPlistFiles (Inl err # es) files = Inl err"
| "walkPlistFiles (Inr (p, regular) # es) files =
     (if \<not> regular then walkPlistFiles es files
      else if \<not> hasSuffix p ''.plist'' then walkPlistFiles es files
      else walkPlistFiles es (if p \<in> set files then files else files @ [p]))"

definition getPlistFiles :: "FS \<Rightarrow> error + string list" where
  "getPlistFiles fSys = walkPlistFiles (walk fSys) []"

section \<open>Rendering a path\<close>

text \<open>
  \<open>simplePathString\<close>: the loop over the path with its three variables, then the reversal of
  \<open>ssPre\<close> and the two joins. \<open>nextStep\<close> is the head of the rest of the path, nil at the end.
\<close>

fun pathLoop ::
  "(PathStep \<Rightarrow> string) \<Rightarrow> PathStep list \<Rightarrow> string list \<Rightarrow> string list \<Rightarrow> int
     \<Rightarrow> string list \<times> string list" where
  "pathLoop str [] ssPre ssPost numIndirect = (ssPre, ssPost)"
| "pathLoop str (s # pa) ssPre ssPost numIndirect =
     (case kind s of
        Indirect \<Rightarrow>
          (let n = numIndirect + 1 in
           (case pa of
              [] \<Rightarrow>
                (if n > 0
                 then pathLoop str pa (ssPre @ [replicate (nat n) (CHR ''*'')]) (ssPost @ [[]]) 0
                 else pathLoop str pa ssPre ssPost 0)
            | nextStep # _ \<Rightarrow>
                (case kind nextStep of
                   Indirect \<Rightarrow> pathLoop str pa ssPre ssPost n
                 | StructField _ \<Rightarrow>
                     (if n - 1 > 0
                      then pathLoop str pa (ssPre @ [''('' @ replicate (nat (n - 1)) (CHR ''*'')])
                             (ssPost @ ['')'']) 0
                      else pathLoop str pa ssPre ssPost 0)
                 | _ \<Rightarrow>
                     (if n > 0
                      then pathLoop str pa (ssPre @ [''('' @ replicate (nat n) (CHR ''*'')])
                             (ssPost @ ['')'']) 0
                      else pathLoop str pa ssPre ssPost 0))))
      | Transform name \<Rightarrow> pathLoop str pa (ssPre @ [name @ ''('']) (ssPost @ ['')'']) numIndirect
      | TypeAssertion \<Rightarrow> pathLoop str pa ssPre ssPost numIndirect
      | _ \<Rightarrow> pathLoop str pa ssPre (ssPost @ [str s]) numIndirect)"

definition simplePathString :: "(PathStep \<Rightarrow> string) \<Rightarrow> PathStep list \<Rightarrow> string" where
  "simplePathString str pa =
     (case pathLoop str pa [] [] 0 of (ssPre, ssPost) \<Rightarrow> concat (rev ssPre) @ concat ssPost)"

text \<open>
  The steps the renderer only asks for their \<open>String()\<close>: the default branch of the switch.
\<close>

fun plainStep :: "stepKind \<Rightarrow> bool" where
  "plainStep Root = True"
| "plainStep (MapIndex _) = True"
| "plainStep (SliceIndex _) = True"
| "plainStep (StructField _) = True"
| "plainStep Indirect = False"
| "plainStep (Transform _) = False"
| "plainStep TypeAssertion = False"

text \<open>
  The same text told run by run, to compare the loop with. A maximal run of N consecutive
  indirections is one marker: N stars in parentheses, the opening one going in front of what
  precedes and the closing one after it; at the end of the path the stars alone, as a prefix;
  before a struct field one star less, and nothing when none is left. A transform wraps what
  precedes in its name and parentheses, a type assertion gives nothing, and every other step
  gives its own text. The text is the prefixes, last first, followed by the suffixes and the
  texts in order.
\<close>

datatype marker = Wrap string string | Text string

definition isIndirect :: "PathStep \<Rightarrow> bool" where
  "isIndirect s = (kind s = Indirect)"

fun runMarker :: "nat \<Rightarrow> PathStep list \<Rightarrow> marker list" where
  "runMarker n [] = [Wrap (replicate n (CHR ''*'')) []]"
| "runMarker n (s # pa) =
     (case kind s of
        StructField name \<Rightarrow>
          (if n \<le> 1 then [] else [Wrap (''('' @ replicate (n - 1) (CHR ''*'')) '')''])
      | _ \<Rightarrow> [Wrap (''('' @ replicate n (CHR ''*'')) '')''])"

function markers :: "(PathStep \<Rightarrow> string) \<Rightarrow> PathStep list \<Rightarrow> marker list" where
  "markers str [] = []"
| "markers str (s # pa) =
     (case kind s of
        Indirect \<Rightarrow>
          runMarker (length (takeWhile isIndirect (s # pa))) (dropWhile isIndirect (s # pa))
          @ markers str (dropWhile isIndirect (s # pa))
      | Transform name \<Rightarrow> Wrap (name @ ''('') '')'' # markers str pa
      | TypeAssertion \<Rightarrow> markers str pa
      | _ \<Rightarrow> Text (str s) # markers str pa)"
  by pat_completeness auto
termination
proof (relation "measure (\<lambda>(str, pa). length pa)")
  show "wf (measure (\<lambda>(str, pa). length pa))"
    by simp
next
  fix str :: "PathStep \<Rightarrow> string" and s :: PathStep and pa :: "PathStep list"
  assume "kind s = Indirect"
  then have "dropWhile isIndirect (s # pa) = dropWhile isIndirect pa"
    by (simp add: isIndirect_def)
  then show "((str, dropWhile isIndirect (s # pa)), str, s # pa) \<in> measure (\<lambda>(str, pa). length pa)"
    by (simp add: length_dropWhile_le less_Suc_eq_le)
qed simp_all

fun prefixes :: "marker list \<Rightarrow> string list" where
  "prefixes [] = []"
| "prefixes (Wrap a b # ms) = a # prefixes ms"
| "prefixes (Text t # ms) = prefixes ms"

fun suffixes :: "marker list \<Rightarrow> string list" where
  "suffixes [] = []"
| "suffixes (Wrap a b # ms) = b # suffixes ms"
| "suffixes (Text t # ms) = t # suffixes ms"

definition renderMarkers :: "(PathStep \<Rightarrow> string) \<Rightarrow> PathStep list \<Rightarrow> string" where
  "renderMarkers str pa =
     concat (rev (prefixes (markers str pa))) @ concat (suffixes (markers str pa))"

section \<open>The reporter\<close>

definition PushStep :: "PathStep \<Rightarrow> diffReporter \<Rightarrow> diffReporter" where
  "PushStep ps r = r\<lparr>steps := steps r @ [ps]\<rparr>"

definition PopStep :: "diffReporter \<Rightarrow> diffReporter" where
  "PopStep r = r\<lparr>steps := butlast (steps r)\<rparr>"

text \<open>
  \<open>r.path.Last().Values()\<close>: the values of the last step, two invalid values when the path
  is empty.
\<close>

definition lastValues :: "PathStep list \<Rightarrow> val option \<times> val option" where
  "lastValues pa = (if pa = [] then (None, None) else (vx (last pa), vy (last pa)))"

definition Report :: "(PathStep \<Rightarrow> string) \<Rightarrow> Result \<Rightarrow> diffReporter \<Rightarrow> diffReporter" where
  "Report str rs r =
     (if resultEqual rs then r
      else (case lastValues (steps r) of
              (x, y) \<Rightarrow>
                r\<lparr>diffs := diffs r @ [\<lparr>path = simplePathString str (steps r), old = x, new = y\<rparr>]\<rparr>))"

text \<open>\<open>FileDiff.String\<close>, with the two \<open>Sprintf\<close> calls written out.\<close>

definition fmtLine :: "lib \<Rightarrow> char \<Rightarrow> string \<Rightarrow> val \<Rightarrow> string" where
  "fmtLine L sign p v =
     [CHR 0x09, sign] @ p @ '': '' @ fmtValue L v @ '' ('' @ fmtType L v @ '')'' @ [CHR 0x0A]"

definition FileDiffString :: "lib \<Rightarrow> FileDiff \<Rightarrow> string" where
  "FileDiffString L d =
     (case old d of None \<Rightarrow> [] | Some v \<Rightarrow> fmtLine L (CHR ''-'') (path d) v)
     @ (case new d of None \<Rightarrow> [] | Some v \<Rightarrow> fmtLine L (CHR ''+'') (path d) v)"

text \<open>\<open>strings.TrimRight(s, "\n")\<close>\<close>

definition trimRightNL :: "string \<Rightarrow> string" where
  "trimRightNL s = rev (dropWhile (\<lambda>c. c = CHR 0x0A) (rev s))"

definition diffReporterString :: "lib \<Rightarrow> diffReporter \<Rightarrow> string" where
  "diffReporterString L r = trimRightNL (concat (map (\<lambda>d. FileDiffString L d @ [CHR 0x0A]) (diffs r)))"

section \<open>Comparing two files, and two trees\<close>

definition decodePlist :: "lib \<Rightarrow> bytes \<Rightarrow> error + val" where
  "decodePlist L data = plistDecode L data"

text \<open>The value \<open>diffPlists\<close> compares for one side: nil when the decoder failed.\<close>

definition decoded :: "lib \<Rightarrow> bytes \<Rightarrow> val option" where
  "decoded L data = (case decodePlist L data of Inl err \<Rightarrow> None | Inr v \<Rightarrow> Some v)"

definition emptyReporter :: diffReporter where
  "emptyReporter = \<lparr>steps = [], diffs = []\<rparr>"

definition diffPlists :: "lib \<Rightarrow> bytes \<Rightarrow> bytes \<Rightarrow> cmpOption list \<Rightarrow> error + bool \<times> string" where
  "diffPlists L oldData newData opts =
     (let oldList = decoded L oldData;
          newList = decoded L newData
      in (case cmpEqual L opts oldList newList emptyReporter of
            (eq, r) \<Rightarrow> if eq then Inr (True, []) else Inr (False, diffReporterString L r)))"

definition diffOpts :: "differ \<Rightarrow> cmpOption list" where
  "diffOpts d = (if IgnoreTimestamps d then [IgnoreTypes [KTime]] else [])"

text \<open>\<open>differ.diffFSFilename\<close>: \<open>None\<close> is the nil \<open>fmt.Stringer\<close>.\<close>

definition diffFSFilename :: "lib \<Rightarrow> differ \<Rightarrow> FS \<Rightarrow> FS \<Rightarrow> string \<Rightarrow> error + string option" where
  "diffFSFilename L d a b filename =
     (case readFile d b filename of
        Inl err \<Rightarrow> Inl err
      | Inr bData \<Rightarrow>
          (case readFile d a filename of
             Inl err \<Rightarrow> Inl err
           | Inr aData \<Rightarrow>
               (case diffPlists L aData bData (diffOpts d) of
                  Inl err \<Rightarrow> Inl err
                | Inr (eq, delta) \<Rightarrow> if eq then Inr None else Inr (Some delta))))"

text \<open>
  \<open>differ.diffFS\<close>: the loop over the names of \<open>a\<close>, then the loop over the names of \<open>b\<close>
  that skips those of \<open>a\<close>. \<open>delta[filename] = df\<close> is \<open>AList.update\<close>.
\<close>

fun diffFilesA :: "lib \<Rightarrow> differ \<Rightarrow> FS \<Rightarrow> FS \<Rightarrow> string list \<Rightarrow> fsDiff \<Rightarrow> error + fsDiff" where
  "diffFilesA L d a b [] delta = Inr delta"
| "diffFilesA L d a b (filename # rest) delta =
     (case diffFSFilename L d a b filename of
        Inl err \<Rightarrow> Inl err
      | Inr None \<Rightarrow> diffFilesA L d a b rest delta
      | Inr (Some df) \<Rightarrow> diffFilesA L d a b rest (AList.update filename df delta))"

fun diffFilesB ::
  "lib \<Rightarrow> differ \<Rightarrow> FS \<Rightarrow> FS \<Rightarrow> string list \<Rightarrow> string list \<Rightarrow> fsDiff \<Rightarrow> error + fsDiff" where
  "diffFilesB L d a b aFiles [] delta = Inr delta"
| "diffFilesB L d a b aFiles (filename # rest) delta =
     (if filename \<in> set aFiles then diffFilesB L d a b aFiles rest delta
      else (case diffFSFilename L d a b filename of
              Inl err \<Rightarrow> Inl err
            | Inr None \<Rightarrow> diffFilesB L d a b aFiles rest delta
            | Inr (Some df) \<Rightarrow> diffFilesB L d a b aFiles rest (AList.update filename df delta)))"

definition diffFS :: "lib \<Rightarrow> differ \<Rightarrow> FS \<Rightarrow> FS \<Rightarrow> error + bool \<times> fsDiff" where
  "diffFS L d a b =
     (case getPlistFiles a of
        Inl err \<Rightarrow> Inl err
      | Inr aFiles \<Rightarrow>
          (case diffFilesA L d a b aFiles [] of
             Inl err \<Rightarrow> Inl err
           | Inr delta \<Rightarrow>
               (case getPlistFiles b of
                  Inl err \<Rightarrow> Inl err
                | Inr bFiles \<Rightarrow>
                    (case diffFilesB L d a b aFiles bFiles delta of
                       Inl err \<Rightarrow> Inl err
                     | Inr delta' \<Rightarrow> Inr (length delta' = 0, delta')))))"

section \<open>The comparator\<close>

text \<open>
  Modelled from the spec: the Tree Comparator of section 4.2, which the program takes from the
  library behind \<open>cmp.Equal\<close>; the library's source is not among the program's files. The
  comparator is given as the list of calls it makes on the reporter (\<open>PushStep\<close>,
  \<open>Report\<close>, \<open>PopStep\<close>), which the reporter of the program then runs. Every node it
  compares is a step of the path, the root too: \<open>Report\<close> reads the two values of a
  difference from the last step. Map keys are visited in the order of the first map, then the
  keys only the second has; a sequence is compared index by index up to the longer length; a
  side that is missing is \<open>None\<close>. Two scalars of one kind are compared by value, reals as
  Go's \<open>==\<close> compares them, so that a NaN differs from itself. An option excludes a node when
  the two sides have the same kind and the option names that kind.
\<close>

datatype call = CallPush PathStep | CallReport Result | CallPop

fun ignoresKind :: "cmpOption \<Rightarrow> kind \<Rightarrow> bool" where
  "ignoresKind (IgnoreTypes ks) k = (k \<in> set ks)"

definition excluded :: "cmpOption list \<Rightarrow> val \<Rightarrow> val \<Rightarrow> bool" where
  "excluded opts a b = (kindOf a = kindOf b \<and> list_ex (\<lambda>opt. ignoresKind opt (kindOf a)) opts)"

definition unionKeys :: "(string \<times> val) list \<Rightarrow> (string \<times> val) list \<Rightarrow> string list" where
  "unionKeys m n = rev (remdups (rev (map fst m @ map fst n)))"

definition nthOpt :: "'a list \<Rightarrow> nat \<Rightarrow> 'a option" where
  "nthOpt xs i = (if i < length xs then Some (xs ! i) else None)"

fun osize :: "val option \<Rightarrow> nat" where
  "osize None = 0"
| "osize (Some v) = size v"

definition withStep :: "stepKind \<Rightarrow> val option \<Rightarrow> val option \<Rightarrow> call list \<Rightarrow> call list" where
  "withStep k x y cs = CallPush \<lparr>kind = k, vx = x, vy = y\<rparr> # cs @ [CallPop]"

function compareNode :: "cmpOption list \<Rightarrow> val option \<Rightarrow> val option \<Rightarrow> call list" where
  "compareNode opts None None = [CallReport ResEqual]"
| "compareNode opts None (Some b) = [CallReport ResUnequal]"
| "compareNode opts (Some a) None = [CallReport ResUnequal]"
| "compareNode opts (Some a) (Some b) =
     (if excluded opts a b then [CallReport ResIgnored]
      else (case (a, b) of
              (VMap m, VMap n) \<Rightarrow>
                concat (map (\<lambda>key. withStep (MapIndex key) (map_of m key) (map_of n key)
                                     (compareNode opts (map_of m key) (map_of n key)))
                          (unionKeys m n))
            | (VSeq xs, VSeq ys) \<Rightarrow>
                concat (map (\<lambda>i. withStep (SliceIndex i) (nthOpt xs i) (nthOpt ys i)
                                   (compareNode opts (nthOpt xs i) (nthOpt ys i)))
                          [0 ..< max (length xs) (length ys)])
            | (VScalar s, VScalar t) \<Rightarrow>
                if scalarKind s = scalarKind t
                then [CallReport (if scalarEq s t then ResEqual else ResUnequal)]
                else [CallReport ResUnequal]
            | _ \<Rightarrow> [CallReport ResUnequal]))"
  by pat_completeness auto
termination
proof (relation "measure (\<lambda>(opts, x, y). osize x + osize y)")
  show "wf (measure (\<lambda>(opts, x, y). osize x + osize y))"
    by simp
next
  fix opts a b x y m n key
  assume "(x, y) = (a, b)" "x = VMap m" "y = VMap n"
  then have ab: "a = VMap m" "b = VMap n"
    by simp_all
  have sz: "size w < Suc (size_list (size_prod (\<lambda>x. 0) size) l)"
    if "map_of l key = Some w" for l :: "(string \<times> val) list" and w
    using that by (induction l) (auto split: if_splits)
  have "osize (map_of l key) < Suc (size_list (size_prod (\<lambda>x. 0) size) l)"
    for l :: "(string \<times> val) list"
    by (cases "map_of l key") (simp_all add: sz)
  from this [of m] this [of n]
  show "((opts, map_of m key, map_of n key), opts, Some a, Some b)
      \<in> measure (\<lambda>(opts, x, y). osize x + osize y)"
    using ab by simp
next
  fix opts a b x y xs ys i
  assume "(x, y) = (a, b)" "x = VSeq xs" "y = VSeq ys"
  then have ab: "a = VSeq xs" "b = VSeq ys"
    by simp_all
  have sz: "size (l ! j) < Suc (size_list size l)" if "j < length l" for l :: "val list" and j
    using that
  proof (induction l arbitrary: j)
    case Nil
    then show ?case by simp
  next
    case (Cons v l)
    show ?case
    proof (cases j)
      case 0
      then show ?thesis by simp
    next
      case (Suc j')
      with Cons.prems have "j' < length l" by simp
      from Cons.IH [OF this] show ?thesis using Suc by simp
    qed
  qed
  have "osize (nthOpt l i) < Suc (size_list size l)" for l :: "val list"
    by (simp add: nthOpt_def sz)
  from this [of xs] this [of ys]
  show "((opts, nthOpt xs i, nthOpt ys i), opts, Some a, Some b)
      \<in> measure (\<lambda>(opts, x, y). osize x + osize y)"
    using ab by simp
qed

definition compareAny :: "cmpOption list \<Rightarrow> stepKind \<Rightarrow> val option \<Rightarrow> val option \<Rightarrow> call list" where
  "compareAny opts k x y = withStep k x y (compareNode opts x y)"

text \<open>The reporter of the program run on the calls of the comparator.\<close>

fun applyCall :: "(PathStep \<Rightarrow> string) \<Rightarrow> call \<Rightarrow> diffReporter \<Rightarrow> diffReporter" where
  "applyCall str (CallPush ps) r = PushStep ps r"
| "applyCall str (CallReport rs) r = Report str rs r"
| "applyCall str CallPop r = PopStep r"

definition runCalls :: "(PathStep \<Rightarrow> string) \<Rightarrow> call list \<Rightarrow> diffReporter \<Rightarrow> diffReporter" where
  "runCalls str cs r = fold (applyCall str) cs r"

text \<open>
  Modelled from the spec: \<open>compare(old, new, options)\<close> of section 4.2 in the shape of
  \<open>cmp.Equal\<close> with a reporter: the verdict is that no node was reported unequal.
\<close>

definition compare ::
  "(PathStep \<Rightarrow> string) \<Rightarrow> cmpOption list \<Rightarrow> val option \<Rightarrow> val option \<Rightarrow> diffReporter
     \<Rightarrow> bool \<times> diffReporter" where
  "compare str opts x y r =
     (let cs = compareAny opts Root x y
      in (list_all (\<lambda>c. c \<noteq> CallReport ResUnequal) cs, runCalls str cs r))"

text \<open>The libraries with this comparator; decoder and formatting stay parameters.\<close>

definition specLib ::
  "(bytes \<Rightarrow> error + val) \<Rightarrow> (PathStep \<Rightarrow> string) \<Rightarrow> (val \<Rightarrow> string) \<Rightarrow> (val \<Rightarrow> string) \<Rightarrow> lib" where
  "specLib dec str fv ft =
     \<lparr>plistDecode = dec, cmpEqual = compare str, stepString = str, fmtValue = fv, fmtType = ft\<rparr>"


text \<open>
  Step texts for the examples: the notation of the spec (\<open>.key\<close>, nothing for the root), and
  a rendering with a named root as \<open>cmp\<close> prints it for a root of interface type.
\<close>

fun specText :: "PathStep \<Rightarrow> string" where
  "specText s = (case kind s of MapIndex key \<Rightarrow> ''.'' @ key | _ \<Rightarrow> [])"

fun rootText :: "PathStep \<Rightarrow> string" where
  "rootText s =
     (case kind s of
        Root \<Rightarrow> ''root''
      | MapIndex key \<Rightarrow> ''['' @ key @ '']''
      | StructField name \<Rightarrow> ''.'' @ name
      | _ \<Rightarrow> [])"

section \<open>Two example trees\<close>

text \<open>
  A decoder that knows two files, a pair of trees to compare, and the differ with and without
  \<open>IgnorePermissionError\<close>. The new tree has a file that may not be read and a file that
  does not decode.
\<close>

definition exDecode :: "bytes \<Rightarrow> error + val" where
  "exDecode bs =
     (if bs = [1] then Inr (VMap [(''x'', VScalar (SInt 1))])
      else if bs = [2] then Inr (VMap [(''x'', VScalar (SInt 2))])
      else Inl (ErrOther ''invalid''))"

definition exLib :: lib where
  "exLib = specLib exDecode specText (\<lambda>v. ''v'') (\<lambda>v. ''t'')"

definition exDiffer :: differ where
  "exDiffer = \<lparr>IgnorePermissionError = True, IgnoreTimestamps = True\<rparr>"

definition exStrict :: differ where
  "exStrict = \<lparr>IgnorePermissionError = False, IgnoreTimestamps = True\<rparr>"

definition exOld :: FS where
  "exOld =
     \<lparr>walk = [Inr (''a.plist'', True), Inr (''n.txt'', True), Inr (''c.plist'', True)],
      readFileFS = (\<lambda>n. if n = ''a.plist'' then Inr [1]
                         else if n = ''c.plist'' then Inr [2]
                         else if n = ''n.txt'' then Inr [7]
                         else Inl ErrNotExist)\<rparr>"

definition exNew :: FS where
  "exNew =
     \<lparr>walk = [Inr (''a.plist'', True), Inr (''c.plist'', True), Inr (''d.plist'', True)],
      readFileFS = (\<lambda>n. if n = ''a.plist'' then Inr [2]
                         else if n = ''c.plist'' then Inl ErrPermission
                         else if n = ''d.plist'' then Inr [3]
                         else Inl ErrNotExist)\<rparr>"





section \<open>The differ built from the command line\<close>

lemma fold_setFlag_Timestamps:
  "Timestamps (fold setFlag fs c) = (Timestamps c \<or> FlagTimestamps \<in> set fs)"
proof (induction fs arbitrary: c)
  case Nil
  show ?case by simp
next
  case (Cons f fs)
  show ?case by (cases f) (simp_all add: Cons.IH)
qed

lemma fold_setFlag_PermissionsErrors:
  "PermissionsErrors (fold setFlag fs c) = (PermissionsErrors c \<or> FlagPermissionsErrors \<in> set fs)"
proof (induction fs arbitrary: c)
  case Nil
  show ?case by simp
next
  case (Cons f fs)
  show ?case by (cases f) (simp_all add: Cons.IH)
qed

text \<open>
  C10. With no flag given, \<open>run\<close> builds a differ with both \<open>IgnorePermissionError\<close> and
  \<open>IgnoreTimestamps\<close> true; each of the two is false exactly when its flag
  (\<open>--permissions-errors\<close>, \<open>--timestamps\<close>) is among those given.
\<close>

theorem run_differ_flags:
  "runDiffer (parseFlags []) = \<lparr>IgnorePermissionError = True, IgnoreTimestamps = True\<rparr>
   \<and> IgnoreTimestamps (runDiffer (parseFlags fs)) = (FlagTimestamps \<notin> set fs)
   \<and> IgnorePermissionError (runDiffer (parseFlags fs)) = (FlagPermissionsErrors \<notin> set fs)"
  by (simp add: runDiffer_def parseFlags_def cliZero_def
        fold_setFlag_Timestamps fold_setFlag_PermissionsErrors)

theorem run_differ_flags_witness:
  "IgnoreTimestamps (runDiffer (parseFlags [FlagTimestamps])) = False
   \<and> IgnorePermissionError (runDiffer (parseFlags [FlagTimestamps])) = True
   \<and> IgnorePermissionError (runDiffer (parseFlags [FlagPermissionsErrors, FlagTimestamps])) = False"
  using run_differ_flags [of "[FlagTimestamps]"]
    run_differ_flags [of "[FlagPermissionsErrors, FlagTimestamps]"]
  by simp

section \<open>The reporter run on the comparator\<close>

lemma runCalls_Nil [simp]: "runCalls str [] r = r"
  by (simp add: runCalls_def)

lemma runCalls_Cons [simp]: "runCalls str (c # cs) r = runCalls str cs (applyCall str c r)"
  by (simp add: runCalls_def)

lemma runCalls_append [simp]: "runCalls str (cs @ ds) r = runCalls str ds (runCalls str cs r)"
  by (simp add: runCalls_def)

lemma steps_Report [simp]: "steps (Report str rs r) = steps r"
  by (simp add: Report_def split: prod.splits)

















lemma diffPlists_result:
  "diffPlists L x y opts =
     Inr (fst (cmpEqual L opts (decoded L x) (decoded L y) emptyReporter),
          if fst (cmpEqual L opts (decoded L x) (decoded L y) emptyReporter) then []
          else diffReporterString L (snd (cmpEqual L opts (decoded L x) (decoded L y) emptyReporter)))"
  by (cases "cmpEqual L opts (decoded L x) (decoded L y) emptyReporter")
     (simp add: diffPlists_def Let_def)

lemma cmpEqual_specLib [simp]: "cmpEqual (specLib dec str fv ft) = compare str"
  by (simp add: specLib_def)

lemma decoded_specLib:
  "decoded (specLib dec str fv ft) data = (case dec data of Inl err \<Rightarrow> None | Inr v \<Rightarrow> Some v)"
  by (simp add: decoded_def decodePlist_def specLib_def)

section \<open>Comparing a value with itself\<close>




section \<open>Ignoring timestamps\<close>




section \<open>Differences at the root and at a map key\<close>

lemma excluded_kinds: "kindOf a \<noteq> kindOf b \<Longrightarrow> \<not> excluded opts a b"
  by (simp add: excluded_def)


lemma simplePathString_root:
  "kind s1 = Root \<Longrightarrow> simplePathString str [s1] = str s1"
  by (simp add: simplePathString_def)

text \<open>
  C3 (as amended). Two root values that are scalars of different kinds give exactly one
  difference; its \<open>old\<close> and \<open>new\<close> are the two values, and its path is the text of the
  root step alone, with no key or index after it.
\<close>

theorem compare_scalar_kinds:
  assumes "scalarKind s \<noteq> scalarKind t"
  shows "compare str opts (Some (VScalar s)) (Some (VScalar t)) emptyReporter =
     (False,
      \<lparr>steps = [],
       diffs = [\<lparr>path = str \<lparr>kind = Root, vx = Some (VScalar s), vy = Some (VScalar t)\<rparr>,
                 old = Some (VScalar s), new = Some (VScalar t)\<rparr>]\<rparr>)"
proof -
  have "\<not> excluded opts (VScalar s) (VScalar t)"
    using assms by (simp add: excluded_kinds)
  then have "compareNode opts (Some (VScalar s)) (Some (VScalar t)) = [CallReport ResUnequal]"
    using assms by simp
  then show ?thesis
    by (simp add: compare_def compareAny_def withStep_def emptyReporter_def PushStep_def
        PopStep_def Report_def lastValues_def simplePathString_root)
qed

theorem compare_scalar_kinds_witness:
  "compare specText [] (Some (VScalar (SString ''a''))) (Some (VScalar (SBool True))) emptyReporter =
     (False,
      \<lparr>steps = [],
       diffs = [\<lparr>path = [], old = Some (VScalar (SString ''a'')),
                 new = Some (VScalar (SBool True))\<rparr>]\<rparr>)"
  using compare_scalar_kinds [of "SString ''a''" "SBool True" specText "[]"]
  by simp

text \<open>
  C3 as stated gives the empty string for that path. Where the root step prints as \<open>root\<close>,
  the path of the difference is \<open>root\<close>.
\<close>

theorem root_path_counterexample:
  "map path (diffs (snd (compare rootText [] (Some (VScalar (SString ''a'')))
      (Some (VScalar (SBool True))) emptyReporter))) = [''root'']
   \<and> path (hd (diffs (snd (compare rootText [] (Some (VScalar (SString ''a'')))
      (Some (VScalar (SBool True))) emptyReporter)))) \<noteq> []"
  by (simp add: compare_def compareAny_def withStep_def emptyReporter_def PushStep_def
        PopStep_def Report_def lastValues_def simplePathString_def excluded_def runCalls_def)










section \<open>The file-set differ\<close>

lemma diffFSFilename_Inl:
  "diffFSFilename L d a b f = Inl e \<longleftrightarrow>
     (readFile d b f = Inl e \<or> ((\<exists>bd. readFile d b f = Inr bd) \<and> readFile d a f = Inl e))"
  by (auto simp add: diffFSFilename_def diffPlists_result split: sum.splits)

lemma diffFSFilename_Inr:
  "readFile d a f = Inr ad \<Longrightarrow> readFile d b f = Inr bd \<Longrightarrow>
   diffFSFilename L d a b f =
     Inr (if fst (cmpEqual L (diffOpts d) (decoded L ad) (decoded L bd) emptyReporter) then None
          else Some (diffReporterString L
                 (snd (cmpEqual L (diffOpts d) (decoded L ad) (decoded L bd) emptyReporter))))"
  by (simp add: diffFSFilename_def diffPlists_result)

lemma diffFilesA_keys:
  "diffFilesA L d a b fs delta = Inr delta' \<Longrightarrow>
     fst ` set delta' = fst ` set delta \<union> {f \<in> set fs. \<exists>txt. diffFSFilename L d a b f = Inr (Some txt)}
     \<and> (\<forall>f \<in> set fs. \<exists>res. diffFSFilename L d a b f = Inr res)"
proof (induction fs arbitrary: delta)
  case Nil
  then show ?case by simp
next
  case (Cons f fs)
  show ?case
  proof (cases "diffFSFilename L d a b f")
    case (Inl e)
    with Cons.prems show ?thesis by simp
  next
    case (Inr res)
    show ?thesis
    proof (cases res)
      case None
      with Inr Cons.prems have "diffFilesA L d a b fs delta = Inr delta'" by simp
      from Cons.IH [OF this] show ?thesis using Inr None by auto
    next
      case (Some df)
      with Inr Cons.prems have "diffFilesA L d a b fs (AList.update f df delta) = Inr delta'" by simp
      from Cons.IH [OF this] show ?thesis using Inr Some by (auto simp: dom_update)
    qed
  qed
qed

lemma diffFilesB_keys:
  "diffFilesB L d a b aFiles fs delta = Inr delta' \<Longrightarrow>
     fst ` set delta' = fst ` set delta
        \<union> {f \<in> set fs - set aFiles. \<exists>txt. diffFSFilename L d a b f = Inr (Some txt)}
     \<and> (\<forall>f \<in> set fs - set aFiles. \<exists>res. diffFSFilename L d a b f = Inr res)"
proof (induction fs arbitrary: delta)
  case Nil
  then show ?case by simp
next
  case (Cons f fs)
  show ?case
  proof (cases "f \<in> set aFiles")
    case True
    with Cons.prems have "diffFilesB L d a b aFiles fs delta = Inr delta'" by simp
    from Cons.IH [OF this] show ?thesis using True by auto
  next
    case False
    show ?thesis
    proof (cases "diffFSFilename L d a b f")
      case (Inl e)
      with Cons.prems False show ?thesis by simp
    next
      case (Inr res)
      show ?thesis
      proof (cases res)
        case None
        with Inr Cons.prems False have "diffFilesB L d a b aFiles fs delta = Inr delta'" by simp
        from Cons.IH [OF this] show ?thesis using Inr None False by auto
      next
        case (Some df)
        with Inr Cons.prems False
        have "diffFilesB L d a b aFiles fs (AList.update f df delta) = Inr delta'" by simp
        from Cons.IH [OF this] show ?thesis using Inr Some False by (auto simp: dom_update)
      qed
    qed
  qed
qed

lemma diffFS_Inr:
  assumes "diffFS L d a b = Inr (eq, delta)"
  shows "\<exists>aFiles bFiles. getPlistFiles a = Inr aFiles \<and> getPlistFiles b = Inr bFiles
     \<and> eq = (delta = [])
     \<and> fst ` set delta
         = {f \<in> set aFiles \<union> set bFiles. \<exists>txt. diffFSFilename L d a b f = Inr (Some txt)}
     \<and> (\<forall>f \<in> set aFiles \<union> set bFiles. \<exists>res. diffFSFilename L d a b f = Inr res)"
proof -
  from assms obtain aFiles where A: "getPlistFiles a = Inr aFiles"
    by (cases "getPlistFiles a") (simp_all add: diffFS_def)
  from assms A obtain delta1 where D1: "diffFilesA L d a b aFiles [] = Inr delta1"
    by (cases "diffFilesA L d a b aFiles []") (simp_all add: diffFS_def)
  from assms A D1 obtain bFiles where B: "getPlistFiles b = Inr bFiles"
    by (cases "getPlistFiles b") (simp_all add: diffFS_def)
  from assms A D1 B obtain delta2 where D2: "diffFilesB L d a b aFiles bFiles delta1 = Inr delta2"
    by (cases "diffFilesB L d a b aFiles bFiles delta1") (simp_all add: diffFS_def)
  from assms A D1 B D2 have res: "eq = (delta2 = [])" "delta = delta2"
    by (auto simp add: diffFS_def)
  from diffFilesA_keys [OF D1] diffFilesB_keys [OF D2] res A B
  show ?thesis by auto
qed

text \<open>
  C1. When \<open>diffFS\<close> returns a result, \<open>equal\<close> is true exactly when the set of file
  differences is empty, and a name is a key of that set exactly when it is a property-list file
  of one of the two trees and the comparison of its two decoded values is not equal; a file
  whose comparison is equal is not in the result.
\<close>

theorem diffFS_equal_iff_empty:
  assumes "diffFS L d a b = Inr (eq, delta)"
  shows "(eq \<longleftrightarrow> delta = [])
     \<and> (f \<in> fst ` set delta \<longleftrightarrow>
          (\<exists>aFiles bFiles ad bd. getPlistFiles a = Inr aFiles \<and> getPlistFiles b = Inr bFiles
              \<and> f \<in> set aFiles \<union> set bFiles
              \<and> readFile d a f = Inr ad \<and> readFile d b f = Inr bd
              \<and> \<not> fst (cmpEqual L (diffOpts d) (decoded L ad) (decoded L bd) emptyReporter)))"
proof -
  from diffFS_Inr [OF assms] obtain aFiles bFiles where
    A: "getPlistFiles a = Inr aFiles" and B: "getPlistFiles b = Inr bFiles"
    and e: "eq = (delta = [])"
    and k: "fst ` set delta
         = {f \<in> set aFiles \<union> set bFiles. \<exists>txt. diffFSFilename L d a b f = Inr (Some txt)}"
    and ok: "\<forall>f \<in> set aFiles \<union> set bFiles. \<exists>res. diffFSFilename L d a b f = Inr res"
    by blast
  have "(\<exists>txt. diffFSFilename L d a b f = Inr (Some txt)) \<longleftrightarrow>
        (\<exists>ad bd. readFile d a f = Inr ad \<and> readFile d b f = Inr bd
              \<and> \<not> fst (cmpEqual L (diffOpts d) (decoded L ad) (decoded L bd) emptyReporter))"
    by (auto simp: diffFSFilename_def diffPlists_result split: sum.splits)
  then show ?thesis
    using A B e k by auto
qed

lemma ex_getPlistFiles:
  "getPlistFiles exOld = Inr [''a.plist'', ''c.plist'']"
  "getPlistFiles exNew = Inr [''a.plist'', ''c.plist'', ''d.plist'']"
  by (simp_all add: getPlistFiles_def exOld_def exNew_def hasSuffix_def)

lemma ex_readFile:
  "readFile exDiffer exOld ''a.plist'' = Inr [1]"
  "readFile exDiffer exNew ''a.plist'' = Inr [2]"
  "readFile exDiffer exOld ''c.plist'' = Inr [2]"
  "readFile exDiffer exNew ''c.plist'' = Inr []"
  "readFile exDiffer exOld ''d.plist'' = Inr []"
  "readFile exDiffer exNew ''d.plist'' = Inr [3]"
  "readFile exStrict exNew ''c.plist'' = Inl ErrPermission"
  "readFile exStrict exOld ''a.plist'' = Inr [1]"
  "readFile exStrict exNew ''a.plist'' = Inr [2]"
  by (simp_all add: readFile_def exOld_def exNew_def exDiffer_def exStrict_def)

lemma ex_diffOpts:
  "diffOpts exDiffer = [IgnoreTypes [KTime]]" "diffOpts exStrict = [IgnoreTypes [KTime]]"
  by (simp_all add: diffOpts_def exDiffer_def exStrict_def)

lemma ex_decoded:
  "decoded exLib [] = None"
  "decoded exLib [1] = Some (VMap [(''x'', VScalar (SInt 1))])"
  "decoded exLib [2] = Some (VMap [(''x'', VScalar (SInt 2))])"
  "decoded exLib [3] = None"
  by (simp_all add: exLib_def decoded_specLib exDecode_def)

lemma ex_cmpEqual:
  "fst (cmpEqual exLib [IgnoreTypes [KTime]] None None emptyReporter)"
  "\<not> fst (cmpEqual exLib [IgnoreTypes [KTime]] (Some (VMap [(''x'', VScalar (SInt 1))]))
         (Some (VMap [(''x'', VScalar (SInt 2))])) emptyReporter)"
  "\<not> fst (cmpEqual exLib [IgnoreTypes [KTime]] (Some (VMap [(''x'', VScalar (SInt 2))]))
         None emptyReporter)"
  by (simp_all add: exLib_def compare_def compareAny_def withStep_def excluded_def unionKeys_def)

lemma ex_diffFSFilename:
  "diffFSFilename exLib exDiffer exOld exNew ''d.plist'' = Inr None"
  "\<exists>txt. diffFSFilename exLib exDiffer exOld exNew ''a.plist'' = Inr (Some txt)"
  "\<exists>txt. diffFSFilename exLib exDiffer exOld exNew ''c.plist'' = Inr (Some txt)"
  "diffFSFilename exLib exStrict exOld exNew ''c.plist'' = Inl ErrPermission"
  by (simp_all add: diffFSFilename_Inr [OF ex_readFile(5) ex_readFile(6)]
      diffFSFilename_Inr [OF ex_readFile(1) ex_readFile(2)]
      diffFSFilename_Inr [OF ex_readFile(3) ex_readFile(4)]
      diffFSFilename_Inl ex_readFile ex_diffOpts ex_decoded ex_cmpEqual)

lemma ex_diffFS:
  "\<exists>t1 t2. diffFS exLib exDiffer exOld exNew = Inr (False, [(''a.plist'', t1), (''c.plist'', t2)])"
proof -
  from ex_diffFSFilename(2) obtain t1
    where 1: "diffFSFilename exLib exDiffer exOld exNew ''a.plist'' = Inr (Some t1)" ..
  from ex_diffFSFilename(3) obtain t2
    where 2: "diffFSFilename exLib exDiffer exOld exNew ''c.plist'' = Inr (Some t2)" ..
  have "diffFS exLib exDiffer exOld exNew = Inr (False, [(''a.plist'', t1), (''c.plist'', t2)])"
    by (simp add: diffFS_def ex_getPlistFiles 1 2 ex_diffFSFilename(1))
  then show ?thesis by blast
qed

theorem diffFS_equal_iff_empty_witness:
  "(\<exists>delta. diffFS exLib exDiffer exOld exNew = Inr (False, delta) \<and> delta \<noteq> []
       \<and> ''a.plist'' \<in> fst ` set delta \<and> ''d.plist'' \<notin> fst ` set delta)
   \<and> \<not> fst (cmpEqual exLib (diffOpts exDiffer) (decoded exLib [1]) (decoded exLib [2]) emptyReporter)
   \<and> fst (cmpEqual exLib (diffOpts exDiffer) (decoded exLib []) (decoded exLib [3]) emptyReporter)"
proof -
  from ex_diffFS obtain t1 t2 where
    e: "diffFS exLib exDiffer exOld exNew = Inr (False, [(''a.plist'', t1), (''c.plist'', t2)])"
    by blast
  from diffFS_equal_iff_empty [OF e, of "''a.plist''"] diffFS_equal_iff_empty [OF e, of "''d.plist''"]
  show ?thesis
    using e by (simp add: ex_diffOpts ex_decoded ex_cmpEqual)
qed

section \<open>Errors from reading and decoding\<close>

lemma diffFS_Inl_file:
  assumes "diffFSFilename L d a b f = Inl e"
    and "(getPlistFiles a = Inr aFiles \<and> f \<in> set aFiles)
         \<or> (getPlistFiles b = Inr bFiles \<and> f \<in> set bFiles)"
  shows "\<exists>e'. diffFS L d a b = Inl e'"
proof (cases "diffFS L d a b")
  case (Inl e')
  then show ?thesis by blast
next
  case (Inr res)
  obtain eq delta where "res = (eq, delta)" by (cases res)
  with Inr have "diffFS L d a b = Inr (eq, delta)" by simp
  from diffFS_Inr [OF this] obtain aFiles' bFiles' where
    A: "getPlistFiles a = Inr aFiles'" and B: "getPlistFiles b = Inr bFiles'"
    and ok: "\<forall>f \<in> set aFiles' \<union> set bFiles'. \<exists>res. diffFSFilename L d a b f = Inr res"
    by blast
  from assms(2) A B have "f \<in> set aFiles' \<union> set bFiles'" by auto
  with ok obtain res' where "diffFSFilename L d a b f = Inr res'" by blast
  with assms(1) show ?thesis by simp
qed

text \<open>
  C5. A file that does not exist reads as the empty byte sequence with no error; a read that is
  denied reads as the empty byte sequence when \<open>IgnorePermissionError\<close> is set; when it is
  not set the denied read is an error of \<open>readFile\<close>, \<open>diffFSFilename\<close> fails on that
  file, and \<open>diffFS\<close> returns an error and no set of differences.
\<close>

theorem readFile_errors:
  "(readFileFS fsys f = Inl ErrNotExist \<longrightarrow> readFile d fsys f = Inr [])
   \<and> (readFileFS fsys f = Inl ErrPermission \<and> IgnorePermissionError d \<longrightarrow> readFile d fsys f = Inr [])
   \<and> (readFileFS fsys f = Inl ErrPermission \<and> \<not> IgnorePermissionError d
        \<longrightarrow> readFile d fsys f = Inl ErrPermission)
   \<and> (readFileFS b f = Inl ErrPermission \<and> \<not> IgnorePermissionError d
        \<longrightarrow> diffFSFilename L d a b f = Inl ErrPermission)
   \<and> (readFileFS a f = Inl ErrPermission \<and> \<not> IgnorePermissionError d
        \<longrightarrow> (\<exists>e. diffFSFilename L d a b f = Inl e))
   \<and> ((readFileFS a f = Inl ErrPermission \<or> readFileFS b f = Inl ErrPermission)
        \<and> \<not> IgnorePermissionError d
        \<and> ((getPlistFiles a = Inr aFiles \<and> f \<in> set aFiles)
             \<or> (getPlistFiles b = Inr bFiles \<and> f \<in> set bFiles))
        \<longrightarrow> (\<exists>e. diffFS L d a b = Inl e))"
proof -
  have 1: "readFile d fs' f = Inl ErrPermission"
    if "readFileFS fs' f = Inl ErrPermission" "\<not> IgnorePermissionError d" for fs'
    using that by (simp add: readFile_def)
  have 2: "diffFSFilename L d a b f = Inl ErrPermission"
    if "readFileFS b f = Inl ErrPermission" "\<not> IgnorePermissionError d"
    using 1 [OF that] by (simp add: diffFSFilename_Inl)
  have 3: "\<exists>e. diffFSFilename L d a b f = Inl e"
    if "readFileFS a f = Inl ErrPermission" "\<not> IgnorePermissionError d"
    using 1 [OF that] by (cases "readFile d b f") (auto simp: diffFSFilename_Inl)
  have 4: "\<exists>e. diffFS L d a b = Inl e"
    if "readFileFS a f = Inl ErrPermission \<or> readFileFS b f = Inl ErrPermission"
      "\<not> IgnorePermissionError d"
      "(getPlistFiles a = Inr aFiles \<and> f \<in> set aFiles)
             \<or> (getPlistFiles b = Inr bFiles \<and> f \<in> set bFiles)"
  proof -
    from that(1,2) 2 3 obtain e where "diffFSFilename L d a b f = Inl e" by blast
    then show ?thesis using that(3) by (rule diffFS_Inl_file)
  qed
  show ?thesis
    using 2 3 4 by (simp add: readFile_def)
qed

theorem readFile_errors_witness:
  "readFile exDiffer exOld ''d.plist'' = Inr []
   \<and> readFile exDiffer exNew ''c.plist'' = Inr []
   \<and> readFile exStrict exNew ''c.plist'' = Inl ErrPermission
   \<and> diffFSFilename exLib exStrict exOld exNew ''c.plist'' = Inl ErrPermission
   \<and> (\<exists>e. diffFS exLib exStrict exOld exNew = Inl e)"
proof -
  have a: "readFileFS exOld ''d.plist'' = Inl ErrNotExist"
    and b: "readFileFS exNew ''c.plist'' = Inl ErrPermission"
    and c: "IgnorePermissionError exDiffer" "\<not> IgnorePermissionError exStrict"
    by (simp_all add: exOld_def exNew_def exDiffer_def exStrict_def)
  have d: "''c.plist'' \<in> set [''a.plist'', ''c.plist'']"
    by simp
  show ?thesis
    using readFile_errors [of exOld "''d.plist''" exDiffer]
      readFile_errors [of exNew "''c.plist''" exDiffer]
      readFile_errors [of exNew "''c.plist''" exStrict exNew exLib exOld
        "[''a.plist'', ''c.plist'']" "[]"]
      a b c d ex_getPlistFiles(1)
    by simp
qed

text \<open>
  C6. \<open>diffPlists\<close> never returns an error; a side whose bytes do not decode is compared as
  nil; and \<open>diffFSFilename\<close> returns an error only when one of its two reads does.
\<close>

theorem decode_failure_absorbed:
  "(\<exists>eq txt. diffPlists L oldData newData opts = Inr (eq, txt))
   \<and> (plistDecode L oldData = Inl e \<longrightarrow>
        diffPlists L oldData newData opts =
          Inr (fst (cmpEqual L opts None (decoded L newData) emptyReporter),
               if fst (cmpEqual L opts None (decoded L newData) emptyReporter) then []
               else diffReporterString L (snd (cmpEqual L opts None (decoded L newData) emptyReporter))))
   \<and> (plistDecode L newData = Inl e \<longrightarrow>
        diffPlists L oldData newData opts =
          Inr (fst (cmpEqual L opts (decoded L oldData) None emptyReporter),
               if fst (cmpEqual L opts (decoded L oldData) None emptyReporter) then []
               else diffReporterString L (snd (cmpEqual L opts (decoded L oldData) None emptyReporter))))
   \<and> (diffFSFilename L d a b f = Inl e \<longrightarrow> readFile d b f = Inl e \<or> readFile d a f = Inl e)"
proof -
  have "decoded L bs = None" if "plistDecode L bs = Inl e" for bs
    using that by (simp add: decoded_def decodePlist_def)
  then show ?thesis
    by (auto simp: diffPlists_result [of L oldData newData opts] diffFSFilename_Inl)
qed

theorem decode_failure_absorbed_witness:
  "diffPlists exLib [3] [2] [IgnoreTypes [KTime]]
     = Inr (False, [CHR 0x09] @ ''+: v (t)'')
   \<and> diffFSFilename exLib exDiffer exOld exNew ''d.plist'' = Inr None"
proof -
  have "plistDecode exLib [3] = Inl (ErrOther ''invalid'')"
    by (simp add: exLib_def specLib_def exDecode_def)
  from decode_failure_absorbed [of exLib "[3]" "[2]" "[IgnoreTypes [KTime]]" "ErrOther ''invalid''"] this
  have "diffPlists exLib [3] [2] [IgnoreTypes [KTime]] =
          Inr (fst (cmpEqual exLib [IgnoreTypes [KTime]] None (decoded exLib [2]) emptyReporter),
               if fst (cmpEqual exLib [IgnoreTypes [KTime]] None (decoded exLib [2]) emptyReporter) then []
               else diffReporterString exLib
                  (snd (cmpEqual exLib [IgnoreTypes [KTime]] None (decoded exLib [2]) emptyReporter)))"
    by blast
  then show ?thesis
    by (simp add: ex_decoded ex_diffFSFilename)
       (simp add: exLib_def specLib_def compare_def compareAny_def withStep_def emptyReporter_def
          PushStep_def PopStep_def Report_def lastValues_def simplePathString_def
          diffReporterString_def FileDiffString_def fmtLine_def trimRightNL_def)
qed











section \<open>Indirections and type assertions in a path\<close>

lemma pathLoop_plain:
  "\<forall>s \<in> set p. plainStep (kind s) \<Longrightarrow>
   pathLoop str (p @ rest) ssPre ssPost n = pathLoop str rest ssPre (ssPost @ map str p) n"
proof (induction p arbitrary: ssPost)
  case Nil
  show ?case by simp
next
  case (Cons s p)
  then have "plainStep (kind s)" by simp
  then have "pathLoop str (s # p @ rest) ssPre ssPost n
      = pathLoop str (p @ rest) ssPre (ssPost @ [str s]) n"
    by (cases "kind s") simp_all
  then show ?case using Cons by simp
qed

lemma pathLoop_TypeAssertion:
  "kind t = TypeAssertion \<Longrightarrow> pathLoop str (t # pa) ssPre ssPost n = pathLoop str pa ssPre ssPost n"
  by simp

lemma pathLoop_indirects:
  "\<forall>s \<in> set inds. kind s = Indirect \<Longrightarrow> kind i = Indirect \<Longrightarrow>
   pathLoop str (inds @ i # rest) ssPre ssPost n
     = pathLoop str (i # rest) ssPre ssPost (n + int (length inds))"
proof (induction inds arbitrary: n)
  case Nil
  show ?case by simp
next
  case (Cons s inds)
  then have s: "kind s = Indirect" by simp
  have "pathLoop str (s # inds @ i # rest) ssPre ssPost n
      = pathLoop str (inds @ i # rest) ssPre ssPost (n + 1)"
  proof (cases inds)
    case Nil
    then show ?thesis using s Cons.prems(2) by simp
  next
    case (Cons s' inds')
    with Cons.prems have "kind s' = Indirect" by simp
    then show ?thesis using s Cons by simp
  qed
  then show ?case using Cons by (simp add: add.assoc)
qed

lemma pathLoop_last_end:
  "kind i = Indirect \<Longrightarrow> 0 \<le> n \<Longrightarrow>
   pathLoop str [i] ssPre ssPost n = (ssPre @ [replicate (nat (n + 1)) (CHR ''*'')], ssPost @ [[]])"
  by simp

lemma pathLoop_last_plain:
  "kind i = Indirect \<Longrightarrow> 0 \<le> n \<Longrightarrow> kind s \<noteq> Indirect \<Longrightarrow> \<forall>name. kind s \<noteq> StructField name \<Longrightarrow>
   pathLoop str (i # s # pa) ssPre ssPost n
     = pathLoop str (s # pa) (ssPre @ [''('' @ replicate (nat (n + 1)) (CHR ''*'')]) (ssPost @ ['')'']) 0"
  by (cases "kind s") simp_all

lemma pathLoop_last_field:
  "kind i = Indirect \<Longrightarrow> kind s = StructField name \<Longrightarrow>
   pathLoop str (i # s # pa) ssPre ssPost n
     = (if n > 0
        then pathLoop str (s # pa) (ssPre @ [''('' @ replicate (nat n) (CHR ''*'')]) (ssPost @ ['')'']) 0
        else pathLoop str (s # pa) ssPre ssPost 0)"
  by simp


lemma pathLoop_run:
  assumes "\<forall>s \<in> set inds. kind s = Indirect" and "inds \<noteq> []"
  shows "pathLoop str (inds @ rest) ssPre ssPost 0
     = pathLoop str (last inds # rest) ssPre ssPost (int (length inds) - 1)"
proof -
  from assms(2) obtain is0 i where sp: "inds = is0 @ [i]"
    by (cases inds rule: rev_cases) simp_all
  with assms(1) have "\<forall>s \<in> set is0. kind s = Indirect" "kind i = Indirect"
    by simp_all
  from pathLoop_indirects [OF this, of str rest ssPre ssPost 0]
  show ?thesis
    unfolding sp by (simp del: pathLoop.simps)
qed

lemma indirection_cases:
  assumes ind: "\<forall>s \<in> set inds. kind s = Indirect" and ne: "inds \<noteq> []"
    and plain: "\<forall>s \<in> set p. plainStep (kind s)"
  shows "(kind s = MapIndex key \<or> kind s = SliceIndex idx \<longrightarrow>
            simplePathString str (p @ inds @ [s])
              = ''('' @ replicate (length inds) (CHR ''*'') @ concat (map str p) @ '')'' @ str s)
     \<and> simplePathString str (p @ inds) = replicate (length inds) (CHR ''*'') @ concat (map str p)
     \<and> (kind s = StructField name \<longrightarrow>
            simplePathString str (p @ inds @ [s])
              = (if length inds = 1 then concat (map str p) @ str s
                 else ''('' @ replicate (length inds - 1) (CHR ''*'') @ concat (map str p) @ '')'' @ str s))
     \<and> (kind t = TypeAssertion \<longrightarrow>
            pathLoop str (t # pa) ssPre ssPost n = pathLoop str pa ssPre ssPost n
            \<and> simplePathString str (p @ t # pa) = simplePathString str (p @ pa))"
proof -
  have li: "kind (last inds) = Indirect" using ind ne by simp
  have len: "nat (int (length inds) - 1 + 1) = length inds" by simp
  have pos: "0 \<le> int (length inds) - 1" using ne by (cases inds) simp_all
  have a: "simplePathString str (p @ inds @ [s])
              = ''('' @ replicate (length inds) (CHR ''*'') @ concat (map str p) @ '')'' @ str s"
    if "kind s = MapIndex key \<or> kind s = SliceIndex idx"
  proof -
    from that have k: "kind s \<noteq> Indirect" "\<forall>name. kind s \<noteq> StructField name" by auto
    have "pathLoop str (p @ inds @ [s]) [] [] 0
        = pathLoop str [s] [''('' @ replicate (length inds) (CHR ''*'')] (map str p @ ['')'']) 0"
      using pathLoop_last_plain [OF li pos k, of str "[]" "[]" "map str p"]
      by (simp add: pathLoop_plain [OF plain] pathLoop_run [OF ind ne] len del: pathLoop.simps)
    also have "\<dots> = ([''('' @ replicate (length inds) (CHR ''*'')], map str p @ ['')'', str s])"
      using that by auto
    finally show ?thesis by (simp add: simplePathString_def)
  qed
  have b: "simplePathString str (p @ inds) = replicate (length inds) (CHR ''*'') @ concat (map str p)"
  proof -
    have "pathLoop str inds [] (map str p) 0
        = pathLoop str [last inds] [] (map str p) (int (length inds) - 1)"
      using pathLoop_run [OF ind ne, of str "[]" "[]" "map str p"]
      by (simp del: pathLoop.simps)
    then have "pathLoop str (p @ inds) [] [] 0
        = ([replicate (length inds) (CHR ''*'')], map str p @ [[]])"
      using pathLoop_last_end [OF li pos, of str "[]" "map str p"]
      by (simp add: pathLoop_plain [OF plain] len del: pathLoop.simps)
    then show ?thesis by (simp add: simplePathString_def)
  qed
  have c: "simplePathString str (p @ inds @ [s])
              = (if length inds = 1 then concat (map str p) @ str s
                 else ''('' @ replicate (length inds - 1) (CHR ''*'') @ concat (map str p) @ '')'' @ str s)"
    if "kind s = StructField name"
  proof -
    have 1: "pathLoop str (p @ inds @ [s]) [] [] 0
        = pathLoop str (last inds # [s]) [] (map str p) (int (length inds) - 1)"
      by (simp add: pathLoop_plain [OF plain] pathLoop_run [OF ind ne] del: pathLoop.simps)
    show ?thesis
    proof (cases "length inds = 1")
      case True
      then show ?thesis
        using that li by (simp add: simplePathString_def 1)
    next
      case False
      with ne have "int (length inds) - 1 > 0" by (cases inds) auto
      moreover have "nat (int (length inds) - 1) = length inds - 1" by simp
      ultimately show ?thesis
        using that li False by (simp add: simplePathString_def 1)
    qed
  qed
  have d: "simplePathString str (p @ t # pa) = simplePathString str (p @ pa)"
    if "kind t = TypeAssertion"
    using that by (simp add: simplePathString_def pathLoop_plain [OF plain])
  show ?thesis
    using a b c d by (simp add: pathLoop_TypeAssertion)
qed

lemma takeWhile_run:
  "kind s = Indirect \<Longrightarrow>
   (\<forall>x \<in> set (takeWhile isIndirect (s # pa)). kind x = Indirect) \<and> takeWhile isIndirect (s # pa) \<noteq> []"
  using set_takeWhileD [of _ isIndirect "s # pa"] by (auto simp: isIndirect_def)

lemma pathLoop_markers:
  "pathLoop str pa ssPre ssPost 0
     = (ssPre @ prefixes (markers str pa), ssPost @ suffixes (markers str pa))"
proof (induction str pa arbitrary: ssPre ssPost rule: markers.induct)
  case (1 str)
  show ?case by simp
next
  case (2 str s pa)
  show ?case
  proof (cases "kind s")
    case Indirect
    define run where "run = takeWhile isIndirect (s # pa)"
    define rest where "rest = dropWhile isIndirect (s # pa)"
    have sp: "s # pa = run @ rest"
      by (simp add: run_def rest_def)
    have run: "\<forall>x \<in> set run. kind x = Indirect" "run \<noteq> []"
      using takeWhile_run [OF Indirect, of pa] by (simp_all add: run_def)
    have li: "kind (last run) = Indirect"
      using run by simp
    have pos: "0 \<le> int (length run) - 1"
      using run(2) by (cases run) simp_all
    have len: "nat (int (length run) - 1 + 1) = length run"
      by simp
    have IH: "pathLoop str rest pre post 0
        = (pre @ prefixes (markers str rest), post @ suffixes (markers str rest))" for pre post
      using "2.IH" Indirect by (simp add: rest_def del: pathLoop.simps dropWhile.simps)
    have m: "markers str (s # pa) = runMarker (length run) rest @ markers str rest"
      using Indirect by (simp add: run_def rest_def)
    have pm: "prefixes (a @ b) = prefixes a @ prefixes b" 
      and sm: "suffixes (a @ b) = suffixes a @ suffixes b" for a b
      by (induction a rule: prefixes.induct) simp_all
    have "pathLoop str (run @ rest) ssPre ssPost 0
        = (ssPre @ prefixes (runMarker (length run) rest @ markers str rest),
           ssPost @ suffixes (runMarker (length run) rest @ markers str rest))"
    proof (cases rest)
      case Nil
      then show ?thesis
        using pathLoop_run [OF run, of str "[]" ssPre ssPost]
          pathLoop_last_end [OF li pos, of str ssPre ssPost]
        by (simp add: len del: pathLoop.simps)
    next
      case (Cons t pa')
      have "dropWhile isIndirect (s # pa) = t # pa'"
        using Cons by (simp only: rest_def)
      then have "\<not> isIndirect t"
        unfolding dropWhile_eq_Cons_conv by blast
      then have nt: "kind t \<noteq> Indirect"
        by (simp add: isIndirect_def)
      show ?thesis
      proof (cases "\<exists>name. kind t = StructField name")
        case True
        then obtain name where f: "kind t = StructField name" by blast
        show ?thesis
        proof (cases "length run \<le> 1")
          case True
          then have "\<not> int (length run) - 1 > 0" by simp
          then show ?thesis
            using pathLoop_run [OF run, of str rest ssPre ssPost]
              pathLoop_last_field [OF li f, of str pa' ssPre ssPost "int (length run) - 1"]
              True f Cons IH
            by (simp add: pm sm del: pathLoop.simps)
        next
          case False
          then have "int (length run) - 1 > 0" by simp
          moreover have "nat (int (length run) - 1) = length run - 1" by simp
          ultimately show ?thesis
            using pathLoop_run [OF run, of str rest ssPre ssPost]
              pathLoop_last_field [OF li f, of str pa' ssPre ssPost "int (length run) - 1"]
              False f Cons IH
            by (simp add: pm sm del: pathLoop.simps)
        qed
      next
        case False
        then have nf: "\<forall>name. kind t \<noteq> StructField name" by simp
        have "runMarker (length run) rest = [Wrap (''('' @ replicate (length run) (CHR ''*'')) '')'']"
          using Cons nt nf by (cases "kind t") simp_all
        then show ?thesis
          using pathLoop_run [OF run, of str rest ssPre ssPost]
            pathLoop_last_plain [OF li pos nt nf, of str pa' ssPre ssPost] Cons IH
          by (simp add: pm sm len del: pathLoop.simps)
      qed
    qed
    then show ?thesis
      unfolding m unfolding sp .
  next
    case Root
    then show ?thesis using "2.IH" by simp
  next
    case (MapIndex x)
    then show ?thesis using "2.IH" by simp
  next
    case (SliceIndex x)
    then show ?thesis using "2.IH" by simp
  next
    case (StructField x)
    then show ?thesis using "2.IH" by simp
  next
    case (Transform x)
    then show ?thesis using "2.IH" by simp
  next
    case TypeAssertion
    then show ?thesis using "2.IH" by simp
  qed
qed

lemma simplePathString_markers: "simplePathString str pa = renderMarkers str pa"
  by (simp add: simplePathString_def renderMarkers_def pathLoop_markers)

text \<open>
  C2 (as amended). For every path the text of the loop is the text told run by run: a maximal
  run of N consecutive indirections is one marker of N stars, in parentheses around what
  precedes it; at the end of the path it has no parentheses but keeps its stars, as a prefix;
  before a struct field (not a map key) it loses one star, so that a single indirection before
  a struct field prints nothing; and a type assertion gives no text of its own. In
  particular, after steps that are printed as they are: N indirections before a map or slice
  index, at the end of the path, and before a struct field print as said, and a type assertion
  can be removed from the path without changing the text.
\<close>

theorem simplePathString_indirection:
  "simplePathString str pa = renderMarkers str pa
   \<and> ((\<forall>s \<in> set inds. kind s = Indirect) \<and> inds \<noteq> [] \<and> (\<forall>s \<in> set p. plainStep (kind s)) \<longrightarrow>
        (kind s = MapIndex key \<or> kind s = SliceIndex idx \<longrightarrow>
            simplePathString str (p @ inds @ [s])
              = ''('' @ replicate (length inds) (CHR ''*'') @ concat (map str p) @ '')'' @ str s)
        \<and> simplePathString str (p @ inds) = replicate (length inds) (CHR ''*'') @ concat (map str p)
        \<and> (kind s = StructField name \<longrightarrow>
            simplePathString str (p @ inds @ [s])
              = (if length inds = 1 then concat (map str p) @ str s
                 else ''('' @ replicate (length inds - 1) (CHR ''*'') @ concat (map str p) @ '')'' @ str s))
        \<and> (kind t = TypeAssertion \<longrightarrow>
            pathLoop str (t # q) ssPre ssPost n = pathLoop str q ssPre ssPost n
            \<and> simplePathString str (p @ t # q) = simplePathString str (p @ q)))"
  using simplePathString_markers [of str pa]
    indirection_cases [of inds p s key idx str name t q ssPre ssPost n]
  by blast

theorem simplePathString_indirection_witness:
  "simplePathString rootText
      [\<lparr>kind = Root, vx = None, vy = None\<rparr>, \<lparr>kind = Indirect, vx = None, vy = None\<rparr>,
       \<lparr>kind = MapIndex ''k'', vx = None, vy = None\<rparr>, \<lparr>kind = Indirect, vx = None, vy = None\<rparr>]
     = ''*(*root)[k]''
   \<and> simplePathString rootText
      [\<lparr>kind = Root, vx = None, vy = None\<rparr>, \<lparr>kind = Indirect, vx = None, vy = None\<rparr>,
       \<lparr>kind = TypeAssertion, vx = None, vy = None\<rparr>]
     = ''(*root)''
   \<and> simplePathString rootText
      [\<lparr>kind = Root, vx = None, vy = None\<rparr>, \<lparr>kind = Indirect, vx = None, vy = None\<rparr>,
       \<lparr>kind = Indirect, vx = None, vy = None\<rparr>, \<lparr>kind = MapIndex ''k'', vx = None, vy = None\<rparr>]
     = ''(**root)[k]''
   \<and> simplePathString rootText
      [\<lparr>kind = Root, vx = None, vy = None\<rparr>, \<lparr>kind = Indirect, vx = None, vy = None\<rparr>,
       \<lparr>kind = Indirect, vx = None, vy = None\<rparr>]
     = ''**root''
   \<and> simplePathString rootText
      [\<lparr>kind = Root, vx = None, vy = None\<rparr>, \<lparr>kind = Indirect, vx = None, vy = None\<rparr>,
       \<lparr>kind = Indirect, vx = None, vy = None\<rparr>, \<lparr>kind = StructField ''f'', vx = None, vy = None\<rparr>]
     = ''(*root).f''
   \<and> simplePathString rootText
      [\<lparr>kind = Root, vx = None, vy = None\<rparr>, \<lparr>kind = TypeAssertion, vx = None, vy = None\<rparr>,
       \<lparr>kind = MapIndex ''k'', vx = None, vy = None\<rparr>]
     = ''root[k]''"
  using simplePathString_indirection [where str = rootText
      and pa = "[\<lparr>kind = Root, vx = None, vy = None\<rparr>, \<lparr>kind = Indirect, vx = None, vy = None\<rparr>,
                 \<lparr>kind = MapIndex ''k'', vx = None, vy = None\<rparr>, \<lparr>kind = Indirect, vx = None, vy = None\<rparr>]"
      and p = "[\<lparr>kind = Root, vx = None, vy = None\<rparr>]"
      and inds = "[\<lparr>kind = Indirect, vx = None, vy = None\<rparr>, \<lparr>kind = Indirect, vx = None, vy = None\<rparr>]"
      and s = "\<lparr>kind = MapIndex ''k'', vx = None, vy = None\<rparr>" and key = "''k''"
      and t = "\<lparr>kind = TypeAssertion, vx = None, vy = None\<rparr>"
      and q = "[\<lparr>kind = MapIndex ''k'', vx = None, vy = None\<rparr>]"]
    simplePathString_indirection [where str = rootText
      and pa = "[\<lparr>kind = Root, vx = None, vy = None\<rparr>, \<lparr>kind = Indirect, vx = None, vy = None\<rparr>,
                 \<lparr>kind = TypeAssertion, vx = None, vy = None\<rparr>]"
      and p = "[\<lparr>kind = Root, vx = None, vy = None\<rparr>]"
      and inds = "[\<lparr>kind = Indirect, vx = None, vy = None\<rparr>, \<lparr>kind = Indirect, vx = None, vy = None\<rparr>]"
      and s = "\<lparr>kind = StructField ''f'', vx = None, vy = None\<rparr>" and name = "''f''"]
  by (simp add: renderMarkers_def isIndirect_def) (simp add: simplePathString_def)

text \<open>
  C2 as stated: a single indirection at the end of a path would print nothing, and an
  indirection before a map key would print nothing. Both print a star.
\<close>

theorem indirection_counterexample:
  "simplePathString rootText
      [\<lparr>kind = Root, vx = None, vy = None\<rparr>, \<lparr>kind = Indirect, vx = None, vy = None\<rparr>]
     = ''*root''
   \<and> simplePathString rootText [\<lparr>kind = Root, vx = None, vy = None\<rparr>] = ''root''
   \<and> simplePathString rootText
      [\<lparr>kind = Root, vx = None, vy = None\<rparr>, \<lparr>kind = Indirect, vx = None, vy = None\<rparr>,
       \<lparr>kind = MapIndex ''k'', vx = None, vy = None\<rparr>]
     = ''(*root)[k]''
   \<and> simplePathString rootText
      [\<lparr>kind = Root, vx = None, vy = None\<rparr>, \<lparr>kind = MapIndex ''k'', vx = None, vy = None\<rparr>]
     = ''root[k]''"
  by (simp add: simplePathString_def)

end
